theory Spec2Isabelle
  imports Main "HOL-Library.Word"
begin

section \<open>Relay purger: the filename strategy\<close>

text \<open>
  The purge strategy by filename (package \<open>purger\<close>) deletes the relay log files
  before a named safe file. Its arguments are prepared by \<open>SetActiveRelayLog\<close>
  and the purge itself is run by \<open>Do\<close>, guarded by an atomic flag.
\<close>

subsection \<open>Relay log positions\<close>

text \<open>
  \<open>streamer.RelayLogInfo\<close>: the fields that \<open>SetActiveRelayLog\<close> writes.
  \<open>UUIDSuffix\<close> is a Go \<open>int\<close>; it is only compared, never computed with.
\<close>

record RelayLogInfo =
  TaskName :: string
  UUID :: string
  UUIDSuffix :: int
  Filename :: string

text \<open>
  Go compares strings byte by byte: \<open>str_less s t\<close> is \<open>strings.Compare(s, t) < 0\<close>.
\<close>

fun str_less :: "string \<Rightarrow> string \<Rightarrow> bool" where
  "str_less [] [] = False"
| "str_less [] (d # t) = True"
| "str_less (c # s) [] = False"
| "str_less (c # s) (d # t) =
     (if (of_char c :: nat) < of_char d then True
      else if (of_char d :: nat) < of_char c then False
      else str_less s t)"

text \<open>
  Modelled from the spec: \<open>RelayLogInfo.Earlier\<close> is defined in package
  \<open>streamer\<close>, which is not among the sources; the spec gives the order as
  "first by UUID suffix, then by filename lex".
\<close>

definition Earlier :: "RelayLogInfo \<Rightarrow> RelayLogInfo \<Rightarrow> bool" where
  "Earlier info other =
     (if UUIDSuffix info < UUIDSuffix other then True
      else if UUIDSuffix other < UUIDSuffix info then False
      else str_less (Filename info) (Filename other))"

subsection \<open>filenameArgs and SetActiveRelayLog\<close>

text \<open>
  \<open>safeRelayLog\<close> is a pointer in the source, \<open>nil\<close> until
  \<open>SetActiveRelayLog\<close> has run.
\<close>

record filenameArgs =
  relayBaseDir :: string
  filename :: string
  subDir :: string
  uuids :: "string list"
  safeRelayLog :: "RelayLogInfo option"

text \<open>
  The loop "discard newer UUIDs": it copies the sub-directories in order and stops
  (\<open>break\<close>) at the first one whose suffix is greater than \<open>endSuffix\<close>.
  \<open>parseSuffix\<close> is the second result of \<open>utils.ParseSuffixForUUID\<close>, whose
  error the source discards.
\<close>

fun discard_newer :: "(string \<Rightarrow> int) \<Rightarrow> int \<Rightarrow> string list \<Rightarrow> string list" where
  "discard_newer parseSuffix endSuffix [] = []"
| "discard_newer parseSuffix endSuffix (uuid # rest) =
     (if parseSuffix uuid > endSuffix then []
      else uuid # discard_newer parseSuffix endSuffix rest)"

text \<open>
  \<open>filenameArgs.SetActiveRelayLog\<close>. Two names it uses are declared outside the
  sources and are parameters here: the constant \<open>fakeTaskName\<close> and the suffix
  parser \<open>utils.ParseSuffixForUUID\<close>. The hint \<open>active\<close> is a non-nil
  \<open>*RelayLogInfo\<close>; when it is earlier, the source stores the hint itself.
\<close>

definition SetActiveRelayLog ::
  "string \<Rightarrow> (string \<Rightarrow> int) \<Rightarrow> filenameArgs \<Rightarrow> RelayLogInfo \<Rightarrow> filenameArgs" where
  "SetActiveRelayLog fakeTaskName parseSuffix fa active =
     (let uuid = (if length (subDir fa) = 0 \<and> length (uuids fa) > 0
                  then last (uuids fa) else subDir fa);
          endSuffix = parseSuffix uuid;
          safe = \<lparr>TaskName = fakeTaskName, UUID = uuid,
                  UUIDSuffix = endSuffix, Filename = filename fa\<rparr>;
          safe' = (if Earlier active safe then active else safe)
      in fa\<lparr>safeRelayLog := Some safe',
             uuids := discard_newer parseSuffix endSuffix (uuids fa)\<rparr>)"

text \<open>
  Modelled from the spec: \<open>utils.ParseSuffixForUUID\<close> is not among the sources.
  The spec describes a sub-directory name as \<open><uuid>.<suffix>\<close> with a decimal
  suffix of width 6, zero-padded. \<open>uuid_suffix\<close> reads that suffix; a name of any
  other shape gives 0. It instantiates the parser parameter in the concrete examples.
\<close>

definition digit_of :: "char \<Rightarrow> nat option" where
  "digit_of c =
     (let n = (of_char c :: nat) in if 48 \<le> n \<and> n \<le> 57 then Some (n - 48) else None)"

fun decimal_of :: "nat \<Rightarrow> string \<Rightarrow> nat option" where
  "decimal_of acc [] = Some acc"
| "decimal_of acc (c # cs) =
     (case digit_of c of None \<Rightarrow> None | Some d \<Rightarrow> decimal_of (10 * acc + d) cs)"

definition uuid_suffix :: "string \<Rightarrow> int" where
  "uuid_suffix name =
     (let digits = rev (takeWhile (\<lambda>c. c \<noteq> CHR ''.'') (rev name))
      in if length digits = 6 \<and> length digits < length name
         then (case decimal_of 0 digits of None \<Rightarrow> 0 | Some n \<Rightarrow> int n)
         else 0)"

subsection \<open>filenameStrategy and Do\<close>

text \<open>
  \<open>filenameStrategy\<close> holds one field, a \<open>sync2.AtomicInt32\<close>.
  \<open>CompareAndSwap\<close> is a single atomic action on it: given the current value it
  returns whether it swapped and the value afterwards.
\<close>

record filenameStrategy =
  purging :: "32 word"

definition CompareAndSwap :: "32 word \<Rightarrow> 32 word \<Rightarrow> 32 word \<Rightarrow> bool \<times> 32 word" where
  "CompareAndSwap v old new = (if v = old then (True, new) else (False, v))"

text \<open>\<open>Purging\<close>: \<open>s.purging.Get() > 0\<close>, a signed comparison.\<close>

definition Purging :: "filenameStrategy \<Rightarrow> bool" where
  "Purging s = (0 < sint (purging s))"

text \<open>
  \<open>Do\<close> takes an \<open>interface{}\<close>: either a \<open>*filenameArgs\<close> or a value of
  some other type, for which the type assertion fails.
\<close>

datatype 'x purge_args = FilenameArgs filenameArgs | OtherArgs 'x

text \<open>
  The errors \<open>Do\<close> returns: the sentinel \<open>ErrSelfPurging\<close>, the
  \<open>errors.NotValidf\<close> error of the failed type assertion, and an error of the
  file purge wrapped by \<open>errors.Trace\<close>. \<open>None\<close> is \<open>nil\<close>.
\<close>

datatype 'e purge_error = ErrSelfPurging | NotValid | Trace 'e

text \<open>
  The part of \<open>Do\<close> that runs with the flag held, after the \<open>defer\<close> is
  registered. \<open>purgeRelayFilesBeforeFile\<close> is declared outside the sources and is
  a parameter: from the base directory, the sub-directories and the safe relay log it
  takes the file system to a new one and returns an error or \<open>nil\<close>.
\<close>

definition Do_body ::
  "(string \<Rightarrow> string list \<Rightarrow> RelayLogInfo option \<Rightarrow> 'fs \<Rightarrow> 'e option \<times> 'fs)
     \<Rightarrow> 'x purge_args \<Rightarrow> 'fs \<Rightarrow> 'e purge_error option \<times> 'fs" where
  "Do_body purgeRelayFilesBeforeFile args fs =
     (case args of
        OtherArgs x \<Rightarrow> (Some NotValid, fs)
      | FilenameArgs fa \<Rightarrow>
          (case purgeRelayFilesBeforeFile (relayBaseDir fa) (uuids fa) (safeRelayLog fa) fs of
             (err, fs') \<Rightarrow> (map_option Trace err, fs')))"

text \<open>
  \<open>filenameStrategy.Do\<close>, run alone: the compare-and-swap, the body, and the
  deferred \<open>s.purging.Set(0)\<close>, which runs on every path after its registration.
\<close>

definition Do ::
  "(string \<Rightarrow> string list \<Rightarrow> RelayLogInfo option \<Rightarrow> 'fs \<Rightarrow> 'e option \<times> 'fs)
     \<Rightarrow> filenameStrategy \<Rightarrow> 'x purge_args \<Rightarrow> 'fs
     \<Rightarrow> 'e purge_error option \<times> filenameStrategy \<times> 'fs" where
  "Do purgeRelayFilesBeforeFile s args fs =
     (case CompareAndSwap (purging s) 0 1 of
        (False, v) \<Rightarrow> (Some ErrSelfPurging, s, fs)
      | (True, v) \<Rightarrow>
          (let s1 = s\<lparr>purging := v\<rparr>;
               (r, fs') = Do_body purgeRelayFilesBeforeFile args fs;
               s2 = s1\<lparr>purging := 0\<rparr>
           in (r, s2, fs')))"

subsection \<open>Concurrent calls of Do\<close>

text \<open>
  Several goroutines call \<open>Do\<close> on one strategy. Each call moves through four
  control points; the only shared data are the flag and the file system. The atomic
  actions of a call are the compare-and-swap, the body and the deferred reset.
\<close>

datatype 'e pc =
    Called
  | Entered
  | Leaving "'e purge_error option"
  | Returned "'e purge_error option"

text \<open>
  A call in flight: its argument, its control point, and \<open>purges\<close>, a history
  variable counting how often this call has run the purge body.
\<close>

record ('x, 'e) call =
  args :: "'x purge_args"
  pc :: "'e pc"
  purges :: nat

record ('x, 'e, 'fs) purger =
  flag :: "32 word"
  files :: 'fs
  calls :: "('x, 'e) call list"

text \<open>A call is inside its purge from the successful swap to the deferred reset.\<close>

fun in_purge :: "'e pc \<Rightarrow> bool" where
  "in_purge Entered = True"
| "in_purge (Leaving r) = True"
| "in_purge Called = False"
| "in_purge (Returned r) = False"

text \<open>
  \<open>step_call\<close>: call \<open>i\<close> performs its next atomic action. A call that has
  returned, or an index that names no call, leaves the state as it is.
\<close>

definition step_call ::
  "(string \<Rightarrow> string list \<Rightarrow> RelayLogInfo option \<Rightarrow> 'fs \<Rightarrow> 'e option \<times> 'fs)
     \<Rightarrow> nat \<Rightarrow> ('x, 'e, 'fs) purger \<Rightarrow> ('x, 'e, 'fs) purger" where
  "step_call purgeRelayFilesBeforeFile i c =
     (if i < length (calls c) then
        (let k = calls c ! i in
         case pc k of
           Called \<Rightarrow>
             (case CompareAndSwap (flag c) 0 1 of
                (False, v) \<Rightarrow>
                  c\<lparr>calls := (calls c)[i := k\<lparr>pc := Returned (Some ErrSelfPurging)\<rparr>]\<rparr>
              | (True, v) \<Rightarrow>
                  c\<lparr>flag := v, calls := (calls c)[i := k\<lparr>pc := Entered\<rparr>]\<rparr>)
         | Entered \<Rightarrow>
             (case Do_body purgeRelayFilesBeforeFile (args k) (files c) of
                (r, fs') \<Rightarrow>
                  c\<lparr>files := fs',
                    calls := (calls c)[i := k\<lparr>pc := Leaving r, purges := Suc (purges k)\<rparr>]\<rparr>)
         | Leaving r \<Rightarrow>
             c\<lparr>flag := 0, calls := (calls c)[i := k\<lparr>pc := Returned r\<rparr>]\<rparr>
         | Returned r \<Rightarrow> c)
      else c)"

text \<open>
  A schedule is the order in which the calls take their actions;
  \<open>run_calls\<close> executes it from left to right.
\<close>

fun run_calls ::
  "(string \<Rightarrow> string list \<Rightarrow> RelayLogInfo option \<Rightarrow> 'fs \<Rightarrow> 'e option \<times> 'fs)
     \<Rightarrow> nat list \<Rightarrow> ('x, 'e, 'fs) purger \<Rightarrow> ('x, 'e, 'fs) purger" where
  "run_calls purgeRelayFilesBeforeFile [] c = c"
| "run_calls purgeRelayFilesBeforeFile (i # sched) c =
     run_calls purgeRelayFilesBeforeFile sched (step_call purgeRelayFilesBeforeFile i c)"

text \<open>The start: the flag is clear and no call has taken an action yet.\<close>

definition fresh_calls :: "('x, 'e, 'fs) purger \<Rightarrow> bool" where
  "fresh_calls c = (flag c = 0 \<and> list_all (\<lambda>k. pc k = Called \<and> purges k = 0) (calls c))"

text \<open>
  What holds of every state that concurrent calls can reach: at most one call is inside
  its purge; the flag is set exactly while some call is; a call has run no purge body
  before it enters; the body never yields \<open>ErrSelfPurging\<close>; and a call that
  returned \<open>ErrSelfPurging\<close> has run no purge body.
\<close>

definition purge_inv :: "('x, 'e, 'fs) purger \<Rightarrow> bool" where
  "purge_inv c =
     ((\<forall>i < length (calls c). \<forall>j < length (calls c).
         in_purge (pc (calls c ! i)) \<and> in_purge (pc (calls c ! j)) \<longrightarrow> i = j)
      \<and> ((\<exists>i < length (calls c). in_purge (pc (calls c ! i))) \<longleftrightarrow> flag c \<noteq> 0)
      \<and> (\<forall>i < length (calls c).
           (pc (calls c ! i) = Called \<longrightarrow> purges (calls c ! i) = 0)
         \<and> (pc (calls c ! i) = Entered \<longrightarrow> purges (calls c ! i) = 0)
         \<and> pc (calls c ! i) \<noteq> Leaving (Some ErrSelfPurging)
         \<and> (pc (calls c ! i) = Returned (Some ErrSelfPurging) \<longrightarrow> purges (calls c ! i) = 0)))"

subsection \<open>Example data for the purger\<close>

text \<open>
  Three sub-directories in the order of the index file, a purge request up to
  \<open>mysql-bin.000004\<close> in the latest sub-directory, and a reader position.
\<close>

definition uuid001 :: string where
  "uuid001 = ''24ecd093-8cec-11e9-aa0d-0242ac170002.000001''"

definition uuid002 :: string where
  "uuid002 = ''24ecd093-8cec-11e9-aa0d-0242ac170002.000002''"

definition uuid003 :: string where
  "uuid003 = ''53bfca22-690d-11e7-8a62-18ded7a37b78.000003''"

definition purge_to_4 :: filenameArgs where
  "purge_to_4 = \<lparr>relayBaseDir = ''/relay'', filename = ''mysql-bin.000004'', subDir = [],
     uuids = [uuid001, uuid002, uuid003], safeRelayLog = None\<rparr>"

definition reader_at :: "string \<Rightarrow> string \<Rightarrow> RelayLogInfo" where
  "reader_at dir file =
     \<lparr>TaskName = ''task'', UUID = dir, UUIDSuffix = uuid_suffix dir, Filename = file\<rparr>"

text \<open>
  An instance of the purge parameter for the examples. The file system is the list of
  the file names of one sub-directory; the purge removes the names lexicographically
  earlier than the safe file, and reports an error when it is given no safe relay log.
\<close>

definition purge_older ::
  "string \<Rightarrow> string list \<Rightarrow> RelayLogInfo option \<Rightarrow> string list \<Rightarrow> string option \<times> string list" where
  "purge_older base dirs safe fs =
     (case safe of
        None \<Rightarrow> (Some ''no safe relay log'', fs)
      | Some info \<Rightarrow> (None, filter (\<lambda>f. \<not> str_less f (Filename info)) fs))"

text \<open>Two calls of \<open>Do\<close> on one strategy, neither started.\<close>

definition two_calls :: "(unit, string, string list) purger" where
  "two_calls = \<lparr>flag = 0, files = [''mysql-bin.000001'', ''mysql-bin.000004''],
     calls = [\<lparr>args = FilenameArgs purge_to_4, pc = Called, purges = 0\<rparr>,
              \<lparr>args = FilenameArgs purge_to_4, pc = Called, purges = 0\<rparr>]\<rparr>"

section \<open>Relay: meta, recovery of the latest file, and the event pump\<close>

text \<open>
  The relay itself (package \<open>relay\<close>) is exercised by the test file of that package;
  \<open>tryRecoverLatestFile\<close>, \<open>handleEvents\<close> and the meta store are not among the
  sources. They are modelled from sections 3, 4.1, 4.2 and 4.3 of the spec, and checked
  against the data of the tests.
\<close>

subsection \<open>GTID sets\<close>

text \<open>
  Modelled from the spec: package \<open>gtid\<close> is not among the sources. A GTID set is a
  "set of transaction identifiers [...] by origin UUID and interval", and it "supports
  parse, equal, contain, union". A set is kept as it is written, \<open>X:123-456\<close> being
  the origin \<open>X\<close> with the closed range \<open>(123, 456)\<close>; membership gives its meaning.
\<close>

type_synonym interval = "nat \<times> nat"

type_synonym gtid_set = "(string \<times> interval list) list"

definition has_gtid :: "gtid_set \<Rightarrow> string \<Rightarrow> nat \<Rightarrow> bool" where
  "has_gtid gs u n =
     list_ex (\<lambda>(v, ivs). v = u \<and> list_ex (\<lambda>(a, b). a \<le> n \<and> n \<le> b) ivs) gs"

text \<open>\<open>covers gs u lo hi\<close>: the set holds every transaction \<open>lo..hi\<close> of origin \<open>u\<close>.\<close>

definition covers :: "gtid_set \<Rightarrow> string \<Rightarrow> nat \<Rightarrow> nat \<Rightarrow> bool" where
  "covers gs u lo hi = list_all (has_gtid gs u) [lo..<Suc hi]"

definition Contain :: "gtid_set \<Rightarrow> gtid_set \<Rightarrow> bool" where
  "Contain gs other =
     list_all (\<lambda>(u, ivs). list_all (\<lambda>(a, b). covers gs u a b) ivs) other"

definition Equal :: "gtid_set \<Rightarrow> gtid_set \<Rightarrow> bool" where
  "Equal gs other = (Contain gs other \<and> Contain other gs)"

definition gset_is_empty :: "gtid_set \<Rightarrow> bool" where
  "gset_is_empty gs = list_all (\<lambda>(u, ivs). list_all (\<lambda>(a, b). b < a) ivs) gs"

text \<open>
  Modelled from the spec: \<open>AddGSetWithPurged\<close> (named in a comment of the relay test)
  is not among the sources. "If the server-reported \<open>gtid_purged\<close> is known and
  non-empty, extend each origin range in \<open>computedGTIDs\<close> to start at 1 when the purged
  range covers [1, start - 1]". \<open>None\<close> is an unknown \<open>gtid_purged\<close>.
\<close>

definition extend_range :: "gtid_set \<Rightarrow> string \<Rightarrow> interval \<Rightarrow> interval" where
  "extend_range purged u iv =
     (case iv of (a, b) \<Rightarrow> if covers purged u 1 (a - 1) then (1, b) else (a, b))"

definition AddGSetWithPurged :: "gtid_set option \<Rightarrow> gtid_set \<Rightarrow> gtid_set" where
  "AddGSetWithPurged purged computed =
     (case purged of
        None \<Rightarrow> computed
      | Some p \<Rightarrow>
          if gset_is_empty p then computed
          else map (\<lambda>(u, ivs). (u, map (extend_range p u) ivs)) computed)"

subsection \<open>Positions and the meta store\<close>

text \<open>
  Modelled from the spec: a binlog position is a "pair (filename, offset)", and the
  minimum checkpoint is "(filename = "", offset = 4)". Offsets are natural numbers:
  the spec computes with none of them.
\<close>

record Position =
  Name :: string
  Pos :: nat

definition minCheckpoint :: Position where
  "minCheckpoint = \<lparr>Name = [], Pos = 4\<rparr>"

text \<open>
  Modelled from the spec: the meta of the current sub-directory, "two fields persisted
  atomically: position and GTID set", with the in-memory dirty flag.
  \<open>flushedPos\<close> and \<open>flushedGTID\<close> are the content of the meta file.
  \<open>Save\<close>: "buffer updates; mark dirty". \<open>Flush\<close>: "fsync meta file with current
  buffered values; clear dirty".
\<close>

record Meta =
  currentUUID :: string
  pos :: Position
  gset :: gtid_set
  dirty :: bool
  flushedPos :: Position
  flushedGTID :: gtid_set

definition Save :: "Position \<Rightarrow> gtid_set \<Rightarrow> Meta \<Rightarrow> Meta" where
  "Save p g m = m\<lparr>pos := p, gset := g, dirty := True\<rparr>"

definition Flush :: "Meta \<Rightarrow> Meta" where
  "Flush m = m\<lparr>flushedPos := pos m, flushedGTID := gset m, dirty := False\<rparr>"

definition Dirty :: "Meta \<Rightarrow> bool" where
  "Dirty m = dirty m"

subsection \<open>Binlog events\<close>

text \<open>
  Modelled from the spec: an event "carries a header (\<open>Timestamp\<close>, \<open>ServerID\<close>,
  \<open>EventType\<close>, \<open>LogPos\<close>) and a typed body", and "each event header records its
  end offset (\<open>LogPos\<close>)". Of the header only \<open>LogPos\<close> is used; the event type is
  the constructor of the body. A query or XID event may carry a committed GTID set.
\<close>

datatype event_body =
    FormatDescriptionEvent
  | PreviousGTIDsEvent gtid_set
  | RotateEvent string nat
  | QueryEvent "gtid_set option"
  | XIDEvent "gtid_set option"
  | HeartbeatEvent
  | GenericEvent

record BinlogEvent =
  LogPos :: nat
  Event :: event_body

text \<open>
  The errors of the relay that the claims name. An error is a value; returning it
  unwrapped is returning the same value.
\<close>

datatype error =
    ContextCanceled
  | ErrChecksumMismatch
  | ErrSyncClosed
  | ErrNeedSyncAgain
  | MetaCorrupt
  | OtherError string

text \<open>
  The state of the relay: the meta, the pending GTID buffer and the published active
  relay log of the pump, the writer (any state \<open>'w\<close>), the files of the current
  sub-directory (content of any cell type \<open>'b\<close>) and the \<open>gtid_purged\<close> that the
  upstream reports (\<open>None\<close> when it is not known).
\<close>

record ('b, 'w) Relay =
  meta :: Meta
  pendingGTIDs :: gtid_set
  activeRelayLog :: "(string \<times> string \<times> nat) option"
  writer :: 'w
  relayFiles :: "string \<Rightarrow> 'b list option"
  gtidPurged :: "gtid_set option"

subsection \<open>Recovery of the latest relay file\<close>

text \<open>
  The binlog event parser is an input of the recovery. \<open>parse\<close> reads the event that
  begins the given bytes, or fails. An event read at offset \<open>off\<close> is complete when it
  ends after \<open>off\<close> and within the file.
\<close>

definition complete_at ::
  "('b list \<Rightarrow> BinlogEvent option) \<Rightarrow> 'b list \<Rightarrow> nat \<Rightarrow> BinlogEvent \<Rightarrow> bool" where
  "complete_at parse bs off ev =
     (parse (drop off bs) = Some ev \<and> off < LogPos ev \<and> LogPos ev \<le> length bs)"

text \<open>
  Modelled from the spec, steps 3 and 4: "Parse events sequentially from the start of
  the file [...] until either (a) end-of-file reached cleanly or (b) a parse error or
  incomplete event encountered".
\<close>

function scan_events ::
  "('b list \<Rightarrow> BinlogEvent option) \<Rightarrow> 'b list \<Rightarrow> nat \<Rightarrow> BinlogEvent list" where
  "scan_events parse bs off =
     (case parse (drop off bs) of
        None \<Rightarrow> []
      | Some ev \<Rightarrow>
          if off < LogPos ev \<and> LogPos ev \<le> length bs
          then ev # scan_events parse bs (LogPos ev)
          else [])"
  by pat_completeness auto
termination
  by (relation "measure (\<lambda>(parse, bs, off). length bs - off)") auto

text \<open>\<open>lastGoodPos\<close>: the end offset of the last complete event, 0 when there is none.\<close>

definition lastGoodPos :: "BinlogEvent list \<Rightarrow> nat" where
  "lastGoodPos evs = (case evs of [] \<Rightarrow> 0 | e # es \<Rightarrow> LogPos (last evs))"

text \<open>
  The file header is "a format-description event and a previous-GTIDs event";
  \<open>header_gtids\<close> is the set of the latter, \<open>None\<close> when the header is not so.
\<close>

definition header_gtids :: "BinlogEvent list \<Rightarrow> gtid_set option" where
  "header_gtids evs =
     (case evs of
        fde # pg # rest \<Rightarrow>
          (case Event fde of
             FormatDescriptionEvent \<Rightarrow>
               (case Event pg of PreviousGTIDsEvent g \<Rightarrow> Some g | _ \<Rightarrow> None)
           | _ \<Rightarrow> None)
      | _ \<Rightarrow> None)"

text \<open>
  The GTID set an event commits, and \<open>computedGTIDs\<close>: the set "starting from the
  previous-GTIDs event in the file header", merged with what the later events commit.
\<close>

definition event_gtids :: "BinlogEvent \<Rightarrow> gtid_set" where
  "event_gtids ev =
     (case Event ev of
        QueryEvent (Some g) \<Rightarrow> g
      | XIDEvent (Some g) \<Rightarrow> g
      | _ \<Rightarrow> [])"

definition computedGTIDs :: "gtid_set \<Rightarrow> BinlogEvent list \<Rightarrow> gtid_set" where
  "computedGTIDs previous evs = foldl (\<lambda>acc ev. acc @ event_gtids ev) previous evs"

text \<open>
  Modelled from the spec, step 6: the computed set is first extended with
  \<open>gtid_purged\<close>; then "if persisted \<open>gset\<close> is a superset of \<open>computedGTIDs\<close>, keep
  persisted. If persisted is a strict subset or incomparable, replace with
  \<open>computedGTIDs\<close>".
\<close>

definition reconcile :: "gtid_set option \<Rightarrow> gtid_set \<Rightarrow> gtid_set \<Rightarrow> gtid_set" where
  "reconcile purged persisted computed =
     (let extended = AddGSetWithPurged purged computed
      in if Contain persisted extended then persisted else extended)"

text \<open>
  Modelled from the spec, section 4.2, steps 1 to 7 and the edge case of a file without
  a previous-GTIDs event. \<open>Inl\<close> is the failure, \<open>Inr\<close> the relay after recovery.
\<close>

definition tryRecoverLatestFile ::
  "('b list \<Rightarrow> BinlogEvent option) \<Rightarrow> ('b, 'w) Relay \<Rightarrow> error + ('b, 'w) Relay" where
  "tryRecoverLatestFile parse r =
     (let name = Name (pos (meta r)) in
      if name = [] then Inr r
      else
        (case relayFiles r name of
           None \<Rightarrow> Inr r
         | Some bs \<Rightarrow>
             (let evs = scan_events parse bs 0 in
              case header_gtids evs of
                None \<Rightarrow> Inl MetaCorrupt
              | Some previous \<Rightarrow>
                  (let good = lastGoodPos evs;
                       computed = computedGTIDs previous (drop 2 evs);
                       bs' = (if good < length bs then take good bs else bs);
                       g = reconcile (gtidPurged r) (gset (meta r)) computed;
                       m = Flush (Save \<lparr>Name = name, Pos = good\<rparr> g (meta r))
                   in Inr (r\<lparr>relayFiles := (relayFiles r)(name \<mapsto> bs'), meta := m\<rparr>)))))"

text \<open>
  What it means that the events \<open>evs\<close> stand one after the other from offset \<open>off\<close>,
  each complete.
\<close>

fun chain ::
  "('b list \<Rightarrow> BinlogEvent option) \<Rightarrow> 'b list \<Rightarrow> nat \<Rightarrow> BinlogEvent list \<Rightarrow> bool" where
  "chain parse bs off [] = True"
| "chain parse bs off (ev # evs) =
     (complete_at parse bs off ev \<and> chain parse bs (LogPos ev) evs)"

subsection \<open>The event pump\<close>

text \<open>
  The collaborators of the pump, by their interfaces in section 6 of the spec. The
  transformer is a pure function to \<open>{Ignore, Event}\<close>. The writer's \<open>WriteEvent\<close>
  returns \<open>{Ignore}\<close> and an error (\<open>None\<close> is \<open>nil\<close>), and changes the writer.
\<close>

record TransformResult =
  tIgnore :: bool
  tEvent :: BinlogEvent

record WriteResult =
  wIgnore :: bool

record HandleResult =
  Canceled :: bool

text \<open>
  Modelled from the spec, step 5 of section 4.3, the meta update rules: a rotate event
  sets the position to the rotate target (name, pos = 4), clears the pending GTID buffer
  and does \<open>Save\<close> and \<open>Flush\<close> at once; a query or XID event carrying a committed
  GTID set sets the position to \<open>LogPos\<close>, merges the set into the meta and does
  \<open>Save\<close>; any other event updates only the position and does \<open>Save\<close>.
\<close>

definition update_meta :: "BinlogEvent \<Rightarrow> ('b, 'w) Relay \<Rightarrow> ('b, 'w) Relay" where
  "update_meta ev r =
     (let m = meta r; here = \<lparr>Name = Name (pos m), Pos = LogPos ev\<rparr> in
      case Event ev of
        RotateEvent next p \<Rightarrow>
          r\<lparr>meta := Flush (Save \<lparr>Name = next, Pos = 4\<rparr> (gset m) m), pendingGTIDs := []\<rparr>
      | QueryEvent (Some g) \<Rightarrow> r\<lparr>meta := Save here (gset m @ g) m\<rparr>
      | XIDEvent (Some g) \<Rightarrow> r\<lparr>meta := Save here (gset m @ g) m\<rparr>
      | _ \<Rightarrow> r\<lparr>meta := Save here (gset m) m\<rparr>)"

text \<open>Step 6: "Publish active relay log info \<open>(uuid, filename, LogPos)\<close>".\<close>

definition publish :: "BinlogEvent \<Rightarrow> ('b, 'w) Relay \<Rightarrow> ('b, 'w) Relay" where
  "publish ev r =
     r\<lparr>activeRelayLog := Some (currentUUID (meta r), Name (pos (meta r)), LogPos ev)\<rparr>"

text \<open>One iteration either goes on with the next one or leaves the loop.\<close>

datatype ('b, 'w) iteration =
    Continue "('b, 'w) Relay"
  | Return HandleResult "error option" "('b, 'w) Relay"

text \<open>
  Modelled from the spec, one iteration of \<open>handleEvents\<close> (steps 1 to 6 of section
  4.3). \<open>got\<close> is what \<open>Reader.GetEvent\<close> returned: an error or an event; a cancelled
  context makes it return \<open>ContextCanceled\<close>. On cancellation the pump flushes the meta
  before it leaves (section 5); on a write error the meta is flushed to the last known
  good (section 7). An event that the writer ignores skips the meta update, and with it
  the publication of step 6, which reports the advance of the meta.
\<close>

definition handleEvent ::
  "(BinlogEvent \<Rightarrow> TransformResult)
     \<Rightarrow> (BinlogEvent \<Rightarrow> 'w \<Rightarrow> (WriteResult \<times> error option) \<times> 'w)
     \<Rightarrow> error + BinlogEvent \<Rightarrow> ('b, 'w) Relay \<Rightarrow> ('b, 'w) iteration" where
  "handleEvent Transform WriteEvent got r =
     (case got of
        Inl err \<Rightarrow>
          if err = ContextCanceled
          then Return \<lparr>Canceled = True\<rparr> None (r\<lparr>meta := Flush (meta r)\<rparr>)
          else Return \<lparr>Canceled = False\<rparr> (Some err) r
      | Inr ev \<Rightarrow>
          (let tev = Transform ev in
           if tIgnore tev then Continue r
           else
             (case WriteEvent (tEvent tev) (writer r) of
                ((wres, Some werr), w') \<Rightarrow>
                  Return \<lparr>Canceled = False\<rparr> (Some werr)
                    (r\<lparr>writer := w', meta := Flush (meta r)\<rparr>)
              | ((wres, None), w') \<Rightarrow>
                  if wIgnore wres then Continue (r\<lparr>writer := w'\<rparr>)
                  else Continue (publish ev (update_meta ev (r\<lparr>writer := w'\<rparr>))))))"

text \<open>
  \<open>handleEvents\<close>: the loop. The list is what the successive calls of \<open>GetEvent\<close>
  return. The loop has no exit of its own: when the list is used up the pump is blocked
  in \<open>GetEvent\<close> and has not returned, which is \<open>None\<close>.
\<close>

fun handleEvents ::
  "(BinlogEvent \<Rightarrow> TransformResult)
     \<Rightarrow> (BinlogEvent \<Rightarrow> 'w \<Rightarrow> (WriteResult \<times> error option) \<times> 'w)
     \<Rightarrow> (error + BinlogEvent) list \<Rightarrow> ('b, 'w) Relay
     \<Rightarrow> (HandleResult \<times> error option \<times> ('b, 'w) Relay) option" where
  "handleEvents Transform WriteEvent [] r = None"
| "handleEvents Transform WriteEvent (got # rest) r =
     (case handleEvent Transform WriteEvent got r of
        Continue r' \<Rightarrow> handleEvents Transform WriteEvent rest r'
      | Return res err r' \<Rightarrow> Some (res, err, r'))"

text \<open>
  \<open>mockWriter\<close> of the relay test: \<open>WriteEvent\<close> holds the event and returns the
  injected result and error.
\<close>

record mockWriter =
  mresult :: WriteResult
  merr :: "error option"
  latestEvent :: "BinlogEvent option"

definition mockWriteEvent ::
  "BinlogEvent \<Rightarrow> mockWriter \<Rightarrow> (WriteResult \<times> error option) \<times> mockWriter" where
  "mockWriteEvent ev w = ((mresult w, merr w), w\<lparr>latestEvent := Some ev\<rparr>)"

text \<open>
  Modelled from the spec: a transformer for the examples. It passes every event on and
  marks the heartbeat events ignorable, as the spec requires of a transformer.
\<close>

definition pass_through :: "BinlogEvent \<Rightarrow> TransformResult" where
  "pass_through ev = \<lparr>tIgnore = (Event ev = HeartbeatEvent), tEvent = ev\<rparr>"

text \<open>
  The data of \<open>TestHandleEvent\<close>: a relay with a fresh sub-directory, a rotate event
  to \<open>mysql-bin.666888\<close> at position 4, a query event carrying the GTID set
  \<open>1-2-3\<close>, and a heartbeat event.
\<close>

definition fresh_relay :: "(nat, mockWriter) Relay" where
  "fresh_relay =
     \<lparr>meta = \<lparr>currentUUID = ''24ecd093-8cec-11e9-aa0d-0242ac170002.000001'',
               pos = minCheckpoint, gset = [], dirty = False,
               flushedPos = minCheckpoint, flushedGTID = []\<rparr>,
      pendingGTIDs = [], activeRelayLog = None,
      writer = \<lparr>mresult = \<lparr>wIgnore = False\<rparr>, merr = None, latestEvent = None\<rparr>,
      relayFiles = (\<lambda>f. None), gtidPurged = None\<rparr>"

definition rotateEv :: BinlogEvent where
  "rotateEv = \<lparr>LogPos = 123, Event = RotateEvent ''mysql-bin.666888'' 4\<rparr>"

definition queryEv :: BinlogEvent where
  "queryEv = \<lparr>LogPos = 123, Event = QueryEvent (Some [(''1-2'', [(3, 3)])])\<rparr>"

definition heartbeatEv :: BinlogEvent where
  "heartbeatEv = \<lparr>LogPos = 0, Event = HeartbeatEvent\<rparr>"

text \<open>The same relay with a writer that ignores what it is given.\<close>

definition ignoring_relay :: "(nat, mockWriter) Relay" where
  "ignoring_relay =
     fresh_relay\<lparr>writer := \<lparr>mresult = \<lparr>wIgnore = True\<rparr>, merr = None, latestEvent = None\<rparr>\<rparr>"

section \<open>Relay holder\<close>

text \<open>
  The holder (\<open>realRelayHolder\<close> of package \<open>worker\<close>) is exercised by
  \<open>dm/worker/relay_test.go\<close>; its implementation is not among the sources. The
  dummy relay it wraps in the test is.
\<close>

datatype stage = New | Running | Paused | Stopped

record ProcessResult =
  IsCanceled :: bool
  Errors :: "string list"

record RelayError =
  Msg :: string

record RelayStatus =
  Stage :: stage
  Result :: "ProcessResult option"

text \<open>
  \<open>DummyRelay\<close> of the test file: \<open>Process\<close> waits until its context is done
  and then returns the injected \<open>processResult\<close>; \<open>Error\<close> returns the injected
  \<open>errorInfo\<close>, a pointer that may be \<open>nil\<close>.
\<close>

record DummyRelay =
  processResult :: ProcessResult
  errorInfo :: "RelayError option"

definition InjectProcessResult :: "ProcessResult \<Rightarrow> DummyRelay \<Rightarrow> DummyRelay" where
  "InjectProcessResult r d = d\<lparr>processResult := r\<rparr>"

text \<open>
  The holder's state as the spec lists it: the stage, the \<open>closed\<close> flag, the last
  \<open>ProcessResult\<close>, and the Pump it owns. \<open>pumping\<close> says that a Pump worker is
  live, blocked in \<open>Process\<close> of the inner relay until it is cancelled.
\<close>

record holder =
  relay :: DummyRelay
  stage :: stage
  closed :: bool
  result :: "ProcessResult option"
  pumping :: bool

definition NewRealRelayHolder :: "DummyRelay \<Rightarrow> holder" where
  "NewRealRelayHolder d =
     \<lparr>relay = d, stage = New, closed = False, result = None, pumping = False\<rparr>"

text \<open>
  Modelled from the spec: \<open>Start\<close> is not among the sources. "From \<open>New\<close> only;
  spawn the Pump worker; state \<open>\<rightarrow> Running\<close>. Idempotent calls after \<open>Running\<close>
  are no-ops."
\<close>

definition Start :: "holder \<Rightarrow> holder" where
  "Start h = (if stage h = New then h\<lparr>stage := Running, pumping := True\<rparr> else h)"

text \<open>
  Cancelling the Pump and capturing its \<open>ProcessResult\<close>: a live worker leaves
  \<open>Process\<close> with the inner relay's result, which the holder records.
\<close>

definition cancel_pump :: "holder \<Rightarrow> holder" where
  "cancel_pump h =
     (if pumping h then h\<lparr>pumping := False, result := Some (processResult (relay h))\<rparr> else h)"

text \<open>
  Modelled from the spec: \<open>Close\<close> is not among the sources. "\<open>Close()\<close>: cancel
  Pump, capture its \<open>ProcessResult\<close>, set \<open>closed = true\<close>, set state to
  \<open>Paused\<close> (not \<open>Stopped\<close>). Idempotent.", and in the state diagram
  "\<open>Close()\<close> from any non-terminal \<open>\<rightarrow> Paused\<close> (with recorded
  \<open>ProcessResult\<close>)"; the terminal state \<open>Stopped\<close> is absorbing.
\<close>

definition Close :: "holder \<Rightarrow> holder" where
  "Close h =
     (if stage h = Stopped then h
      else (cancel_pump h)\<lparr>closed := True, stage := Paused\<rparr>)"

text \<open>
  Modelled from the spec: \<open>Status\<close> is not among the sources. It "returns a
  snapshot: \<open>{Stage, Result}\<close>. If \<open>closed == true\<close>, reported stage is
  \<open>Stopped\<close> even if internal state is \<open>Paused\<close>". The test \<open>testClose\<close>
  expects the status of a closed holder to carry no result.
\<close>

definition Status :: "holder \<Rightarrow> RelayStatus" where
  "Status h =
     (if closed h then \<lparr>Stage = Stopped, Result = None\<rparr>
      else \<lparr>Stage = stage h, Result = result h\<rparr>)"

text \<open>
  Modelled from the spec: \<open>Error\<close> is not among the sources. It "returns last error
  info; when \<open>closed && Stage() == Paused\<close>, returns a synthetic
  \<open>{Msg: "relay stopped"}\<close>". The last error info is the inner relay's.
\<close>

definition Error :: "holder \<Rightarrow> RelayError option" where
  "Error h =
     (if closed h \<and> stage h = Paused then Some \<lparr>Msg = ''relay stopped''\<rparr>
      else errorInfo (relay h))"

text \<open>The result injected by \<open>testClose\<close>, and the holder it closes.\<close>

definition test_result :: ProcessResult where
  "test_result = \<lparr>IsCanceled = True, Errors = [''process error'']\<rparr>"

definition running_holder :: holder where
  "running_holder =
     (Start (NewRealRelayHolder \<lparr>processResult = \<lparr>IsCanceled = False, Errors = []\<rparr>,
                                 errorInfo = None\<rparr>))
       \<lparr>relay := InjectProcessResult test_result
          \<lparr>processResult = \<lparr>IsCanceled = False, Errors = []\<rparr>, errorInfo = None\<rparr>\<rparr>"

section \<open>Properties of the purger\<close>

subsection \<open>Preparing the arguments\<close>

lemma uuid_suffix_examples:
  "uuid_suffix uuid001 = 1" "uuid_suffix uuid002 = 2" "uuid_suffix uuid003 = 3"
  by (simp_all add: uuid_suffix_def digit_of_def uuid001_def uuid002_def uuid003_def)

text \<open>The loop with its \<open>break\<close> keeps the longest leading run of old enough names.\<close>

lemma discard_newer_takeWhile:
  "discard_newer p e us = takeWhile (\<lambda>u. p u \<le> e) us"
  by (induction us) auto

lemma takeWhile_sorted_filter:
  "sorted (map p us) \<Longrightarrow> takeWhile (\<lambda>u. p u \<le> (e::int)) us = filter (\<lambda>u. p u \<le> e) us"
proof (induction us)
  case Nil
  show ?case by simp
next
  case (Cons u us)
  show ?case
  proof (cases "p u \<le> e")
    case True
    with Cons show ?thesis by simp
  next
    case False
    with Cons.prems have "\<forall>v \<in> set us. \<not> p v \<le> e" by auto
    then have "filter (\<lambda>u. p u \<le> e) us = []" by (simp add: filter_empty_conv)
    with False show ?thesis by simp
  qed
qed

lemma str_less_irrefl: "\<not> str_less s s"
  by (induction s) auto

lemma Earlier_irrefl: "\<not> Earlier a a"
  by (simp add: Earlier_def str_less_irrefl)

text \<open>
  Claim C3, as the spec states it: after \<open>SetActiveRelayLog\<close> the list \<open>uuids\<close>
  holds exactly the sub-directories whose suffix is not greater than the suffix of the
  resulting \<open>safeRelayLog\<close>. It fails when the reader is in an earlier
  sub-directory: with the sub-directories 1, 2, 3, a request in the latest one and a
  reader in sub-directory 1, the safe relay log is the reader's (suffix 1), yet all three
  sub-directories stay in the list. The loop compares with \<open>endSuffix\<close>, the suffix
  of the requested sub-directory.
\<close>

theorem SetActiveRelayLog_keeps_newer_counterexample:
  "uuids (SetActiveRelayLog ''filename'' uuid_suffix purge_to_4
            (reader_at uuid001 ''mysql-bin.000002''))
     = [uuid001, uuid002, uuid003]
   \<and> map_option UUIDSuffix
       (safeRelayLog (SetActiveRelayLog ''filename'' uuid_suffix purge_to_4
            (reader_at uuid001 ''mysql-bin.000002'')))
     = Some 1
   \<and> uuid_suffix uuid002 = 2 \<and> uuid_suffix uuid003 = 3"
  by (simp add: SetActiveRelayLog_def purge_to_4_def reader_at_def Earlier_def
      uuid_suffix_examples Let_def)

text \<open>
  Claim C3, amended: when \<open>uuids\<close> is listed in non-decreasing order of suffix (the
  order of the index file), after \<open>SetActiveRelayLog\<close> the list holds exactly the
  sub-directories whose suffix is not greater than the suffix of the requested
  sub-directory (\<open>subDir\<close>, or the last of \<open>uuids\<close> when \<open>subDir\<close> is empty).
  That suffix is the suffix of the resulting \<open>safeRelayLog\<close> whenever the suffix of
  the active relay log is not smaller than it.
\<close>

theorem SetActiveRelayLog_uuids:
  assumes "sorted (map parseSuffix (uuids fa))"
  shows "uuids (SetActiveRelayLog fakeTaskName parseSuffix fa active) =
           filter (\<lambda>u. parseSuffix u \<le>
                        parseSuffix (if subDir fa = [] \<and> uuids fa \<noteq> []
                                     then last (uuids fa) else subDir fa))
                  (uuids fa)
         \<and> (\<not> UUIDSuffix active <
               parseSuffix (if subDir fa = [] \<and> uuids fa \<noteq> []
                            then last (uuids fa) else subDir fa) \<longrightarrow>
             uuids (SetActiveRelayLog fakeTaskName parseSuffix fa active) =
               filter (\<lambda>u. parseSuffix u \<le>
                   UUIDSuffix (the (safeRelayLog
                     (SetActiveRelayLog fakeTaskName parseSuffix fa active))))
                 (uuids fa))"
proof -
  let ?target = "if subDir fa = [] \<and> uuids fa \<noteq> [] then last (uuids fa) else subDir fa"
  let ?fa' = "SetActiveRelayLog fakeTaskName parseSuffix fa active"
  have kept: "uuids ?fa' = filter (\<lambda>u. parseSuffix u \<le> parseSuffix ?target) (uuids fa)"
    using assms
    by (simp add: SetActiveRelayLog_def Let_def discard_newer_takeWhile takeWhile_sorted_filter)
  have "UUIDSuffix (the (safeRelayLog ?fa')) = parseSuffix ?target"
    if "\<not> UUIDSuffix active < parseSuffix ?target"
    using that by (auto simp add: SetActiveRelayLog_def Let_def Earlier_def split: if_splits)
  with kept show ?thesis by simp
qed

theorem SetActiveRelayLog_uuids_witness:
  "sorted (map uuid_suffix (uuids (purge_to_4\<lparr>subDir := uuid002\<rparr>)))
   \<and> uuids (SetActiveRelayLog ''filename'' uuid_suffix (purge_to_4\<lparr>subDir := uuid002\<rparr>)
        (reader_at uuid002 ''mysql-bin.000007'')) = [uuid001, uuid002]"
proof -
  have s: "sorted (map uuid_suffix (uuids (purge_to_4\<lparr>subDir := uuid002\<rparr>)))"
    by (simp add: purge_to_4_def uuid_suffix_examples)
  have ne: "uuid002 \<noteq> []" by (simp add: uuid002_def)
  have "uuids (SetActiveRelayLog ''filename'' uuid_suffix (purge_to_4\<lparr>subDir := uuid002\<rparr>)
          (reader_at uuid002 ''mysql-bin.000007'')) =
        filter (\<lambda>u. uuid_suffix u \<le> uuid_suffix uuid002) [uuid001, uuid002, uuid003]"
    using SetActiveRelayLog_uuids [OF s, of "''filename''" "reader_at uuid002 ''mysql-bin.000007''"] ne
    by (simp add: purge_to_4_def)
  then show ?thesis using s by (simp add: uuid_suffix_examples)
qed

text \<open>
  Claim C4: \<open>SetActiveRelayLog\<close> takes as target the given \<open>subDir\<close>, or the last
  element of \<open>uuids\<close> when \<open>subDir\<close> is empty (and the empty name when both are
  empty), builds the requested relay log from the target and the requested filename, and
  stores the active relay log in its place when the active one is earlier (by suffix,
  then by filename). So the active relay log is never earlier than the stored safe
  relay log: the purge point does not pass what is being read.
\<close>

theorem SetActiveRelayLog_safe:
  "safeRelayLog (SetActiveRelayLog fakeTaskName parseSuffix fa active) =
     Some (let target = (if subDir fa \<noteq> [] then subDir fa
                         else if uuids fa \<noteq> [] then last (uuids fa) else []);
               requested = \<lparr>TaskName = fakeTaskName, UUID = target,
                            UUIDSuffix = parseSuffix target, Filename = filename fa\<rparr>
           in if Earlier active requested then active else requested)
   \<and> \<not> Earlier active (the (safeRelayLog (SetActiveRelayLog fakeTaskName parseSuffix fa active)))"
  by (auto simp add: SetActiveRelayLog_def Let_def Earlier_irrefl)

theorem SetActiveRelayLog_safe_witness:
  "safeRelayLog (SetActiveRelayLog ''filename'' uuid_suffix purge_to_4
       (reader_at uuid003 ''mysql-bin.000003'')) = Some (reader_at uuid003 ''mysql-bin.000003'')
   \<and> safeRelayLog (SetActiveRelayLog ''filename'' uuid_suffix purge_to_4
       (reader_at uuid003 ''mysql-bin.000005'')) =
     Some \<lparr>TaskName = ''filename'', UUID = uuid003, UUIDSuffix = 3, Filename = ''mysql-bin.000004''\<rparr>"
  using SetActiveRelayLog_safe [of "''filename''" uuid_suffix purge_to_4
          "reader_at uuid003 ''mysql-bin.000003''"]
        SetActiveRelayLog_safe [of "''filename''" uuid_suffix purge_to_4
          "reader_at uuid003 ''mysql-bin.000005''"]
  by (simp add: purge_to_4_def reader_at_def Earlier_def uuid_suffix_examples Let_def)

subsection \<open>The purging flag\<close>

text \<open>
  Claim C10: on every return path of \<open>Do\<close> behind the compare-and-swap (success, the
  rejection of arguments of another type, an error of the file purge) the flag is reset
  to 0: after such a return \<open>Purging\<close> is false, and a following call of \<open>Do\<close>,
  with any argument, is not rejected with \<open>ErrSelfPurging\<close>.
\<close>

theorem Do_resets_purging:
  assumes "Do purgeRelayFilesBeforeFile s a fs = (r, s', fs')"
      and "r \<noteq> Some ErrSelfPurging"
  shows "purging s' = 0 \<and> \<not> Purging s'
         \<and> fst (Do purgeRelayFilesBeforeFile s' a2 fs') \<noteq> Some ErrSelfPurging"
proof -
  have reset: "purging s' = 0"
    using assms by (auto simp add: Do_def CompareAndSwap_def Let_def split: if_splits prod.splits)
  have body: "fst (Do_body purgeRelayFilesBeforeFile a2 fs') \<noteq> Some ErrSelfPurging"
    by (auto simp add: Do_body_def split: purge_args.splits prod.splits)
  have "fst (Do purgeRelayFilesBeforeFile s' a2 fs') \<noteq> Some ErrSelfPurging"
    using reset body by (auto simp add: Do_def CompareAndSwap_def Let_def split: prod.splits)
  with reset show ?thesis by (simp add: Purging_def)
qed

theorem Do_resets_purging_witness:
  "Do purge_older \<lparr>purging = 0\<rparr> (FilenameArgs purge_to_4) [''mysql-bin.000001'']
     = (Some (Trace ''no safe relay log''), \<lparr>purging = 0\<rparr>, [''mysql-bin.000001''])
   \<and> Do purge_older \<lparr>purging = 0\<rparr> (OtherArgs ()) [''mysql-bin.000001'']
     = (Some NotValid, \<lparr>purging = 0\<rparr>, [''mysql-bin.000001''])
   \<and> \<not> Purging \<lparr>purging = 0\<rparr>
   \<and> fst (Do purge_older \<lparr>purging = 0\<rparr>
        (FilenameArgs (purge_to_4\<lparr>safeRelayLog := Some \<lparr>TaskName = ''filename'', UUID = uuid003,
            UUIDSuffix = 3, Filename = ''mysql-bin.000004''\<rparr>\<rparr>)) [''mysql-bin.000001'']) = None"
proof -
  have e: "Do purge_older \<lparr>purging = 0\<rparr> (FilenameArgs purge_to_4) [''mysql-bin.000001'']
     = (Some (Trace ''no safe relay log''), \<lparr>purging = 0\<rparr>, [''mysql-bin.000001''])"
    by (simp add: Do_def Do_body_def CompareAndSwap_def purge_older_def purge_to_4_def)
  have n: "Do purge_older \<lparr>purging = 0\<rparr> (OtherArgs ()) [''mysql-bin.000001'']
     = (Some NotValid, \<lparr>purging = 0\<rparr>, [''mysql-bin.000001''])"
    by (simp add: Do_def Do_body_def CompareAndSwap_def)
  have "\<not> Purging \<lparr>purging = 0\<rparr>"
    using Do_resets_purging [OF e, of "FilenameArgs purge_to_4"]
          Do_resets_purging [OF n, of "OtherArgs ()"] by simp
  moreover have "fst (Do purge_older \<lparr>purging = 0\<rparr>
        (FilenameArgs (purge_to_4\<lparr>safeRelayLog := Some \<lparr>TaskName = ''filename'', UUID = uuid003,
            UUIDSuffix = 3, Filename = ''mysql-bin.000004''\<rparr>\<rparr>)) [''mysql-bin.000001'']) = None"
    by (simp add: Do_def Do_body_def CompareAndSwap_def purge_older_def purge_to_4_def)
  ultimately show ?thesis using e n by simp
qed

subsection \<open>Concurrent calls\<close>

lemma purge_invI:
  assumes "\<And>i j. i < length (calls c) \<Longrightarrow> j < length (calls c) \<Longrightarrow>
             in_purge (pc (calls c ! i)) \<Longrightarrow> in_purge (pc (calls c ! j)) \<Longrightarrow> i = j"
      and "(\<exists>i < length (calls c). in_purge (pc (calls c ! i))) \<longleftrightarrow> flag c \<noteq> 0"
      and "\<And>i. i < length (calls c) \<Longrightarrow> pc (calls c ! i) = Called \<Longrightarrow> purges (calls c ! i) = 0"
      and "\<And>i. i < length (calls c) \<Longrightarrow> pc (calls c ! i) = Entered \<Longrightarrow> purges (calls c ! i) = 0"
      and "\<And>i. i < length (calls c) \<Longrightarrow> pc (calls c ! i) \<noteq> Leaving (Some ErrSelfPurging)"
      and "\<And>i. i < length (calls c) \<Longrightarrow> pc (calls c ! i) = Returned (Some ErrSelfPurging) \<Longrightarrow>
             purges (calls c ! i) = 0"
  shows "purge_inv c"
  unfolding purge_inv_def using assms by blast

lemma purge_inv_excl:
  "purge_inv c \<Longrightarrow> i < length (calls c) \<Longrightarrow> j < length (calls c) \<Longrightarrow>
     in_purge (pc (calls c ! i)) \<Longrightarrow> in_purge (pc (calls c ! j)) \<Longrightarrow> i = j"
  unfolding purge_inv_def by blast

lemma purge_inv_flag:
  "purge_inv c \<Longrightarrow> (\<exists>i < length (calls c). in_purge (pc (calls c ! i))) \<longleftrightarrow> flag c \<noteq> 0"
  unfolding purge_inv_def by blast

lemma purge_inv_hist:
  assumes "purge_inv c" and "i < length (calls c)"
  shows "pc (calls c ! i) = Called \<Longrightarrow> purges (calls c ! i) = 0"
    and "pc (calls c ! i) = Entered \<Longrightarrow> purges (calls c ! i) = 0"
    and "pc (calls c ! i) \<noteq> Leaving (Some ErrSelfPurging)"
    and "pc (calls c ! i) = Returned (Some ErrSelfPurging) \<Longrightarrow> purges (calls c ! i) = 0"
  using assms unfolding purge_inv_def by blast+

lemma Do_body_not_self_purging:
  "Do_body P a fs = (r, fs') \<Longrightarrow> r \<noteq> Some ErrSelfPurging"
  by (auto simp add: Do_body_def split: purge_args.splits prod.splits)

lemma step_call_length [simp]: "length (calls (step_call P i c)) = length (calls c)"
  by (simp add: step_call_def Let_def CompareAndSwap_def split: pc.splits prod.splits)

lemma step_call_other:
  "j \<noteq> i \<Longrightarrow> calls (step_call P i c) ! j = calls c ! j"
  by (simp add: step_call_def Let_def CompareAndSwap_def split: pc.splits prod.splits)

lemma fresh_calls_inv: "fresh_calls c \<Longrightarrow> purge_inv c"
  by (auto simp add: fresh_calls_def purge_inv_def list_all_length)

text \<open>Every action of every call preserves the invariant.\<close>

lemma step_call_inv:
  assumes inv: "purge_inv c"
  shows "purge_inv (step_call P i c)"
proof (cases "i < length (calls c)")
  case False
  with inv show ?thesis by (simp add: step_call_def)
next
  case i: True
  let ?c' = "step_call P i c"
  have oth: "\<And>j. j \<noteq> i \<Longrightarrow> calls ?c' ! j = calls c ! j" by (rule step_call_other)
  show ?thesis
  proof (cases "pc (calls c ! i)")
    case Called
    show ?thesis
    proof (cases "flag c = 0")
      case f: True
      then have none: "\<And>j. j < length (calls c) \<Longrightarrow> \<not> in_purge (pc (calls c ! j))"
        using purge_inv_flag [OF inv] by blast
      have st: "pc (calls ?c' ! i) = Entered" "purges (calls ?c' ! i) = purges (calls c ! i)"
                "flag ?c' = 1"
        using i Called f by (simp_all add: step_call_def Let_def CompareAndSwap_def)
      show ?thesis
      proof (rule purge_invI)
        fix a b
        assume "a < length (calls ?c')" "b < length (calls ?c')"
          "in_purge (pc (calls ?c' ! a))" "in_purge (pc (calls ?c' ! b))"
        then show "a = b" using none oth by (metis step_call_length)
      next
        have "in_purge (pc (calls ?c' ! i))" using st by simp
        then show "(\<exists>j < length (calls ?c'). in_purge (pc (calls ?c' ! j))) \<longleftrightarrow> flag ?c' \<noteq> 0"
          using i st by auto
      next
        fix a assume "a < length (calls ?c')" "pc (calls ?c' ! a) = Called"
        then show "purges (calls ?c' ! a) = 0"
          using purge_inv_hist(1) [OF inv] oth st by (cases "a = i") auto
      next
        fix a assume "a < length (calls ?c')" "pc (calls ?c' ! a) = Entered"
        then show "purges (calls ?c' ! a) = 0"
          using purge_inv_hist(1,2) [OF inv] oth st Called i by (cases "a = i") auto
      next
        fix a assume "a < length (calls ?c')"
        then show "pc (calls ?c' ! a) \<noteq> Leaving (Some ErrSelfPurging)"
          using purge_inv_hist(3) [OF inv] oth st by (cases "a = i") auto
      next
        fix a assume "a < length (calls ?c')" "pc (calls ?c' ! a) = Returned (Some ErrSelfPurging)"
        then show "purges (calls ?c' ! a) = 0"
          using purge_inv_hist(4) [OF inv] oth st by (cases "a = i") auto
      qed
    next
      case f: False
      have st: "pc (calls ?c' ! i) = Returned (Some ErrSelfPurging)"
                "purges (calls ?c' ! i) = purges (calls c ! i)" "flag ?c' = flag c"
        using i Called f by (simp_all add: step_call_def Let_def CompareAndSwap_def)
      have same: "\<And>j. j < length (calls c) \<Longrightarrow>
                    in_purge (pc (calls ?c' ! j)) = in_purge (pc (calls c ! j))"
        using oth st Called by (metis in_purge.simps(3,4))
      show ?thesis
      proof (rule purge_invI)
        fix a b
        assume "a < length (calls ?c')" "b < length (calls ?c')"
          "in_purge (pc (calls ?c' ! a))" "in_purge (pc (calls ?c' ! b))"
        then show "a = b" using same purge_inv_excl [OF inv] by simp
      next
        show "(\<exists>j < length (calls ?c'). in_purge (pc (calls ?c' ! j))) \<longleftrightarrow> flag ?c' \<noteq> 0"
          using same purge_inv_flag [OF inv] st by auto
      next
        fix a assume "a < length (calls ?c')" "pc (calls ?c' ! a) = Called"
        then show "purges (calls ?c' ! a) = 0"
          using purge_inv_hist(1) [OF inv] oth st by (cases "a = i") auto
      next
        fix a assume "a < length (calls ?c')" "pc (calls ?c' ! a) = Entered"
        then show "purges (calls ?c' ! a) = 0"
          using purge_inv_hist(2) [OF inv] oth st by (cases "a = i") auto
      next
        fix a assume "a < length (calls ?c')"
        then show "pc (calls ?c' ! a) \<noteq> Leaving (Some ErrSelfPurging)"
          using purge_inv_hist(3) [OF inv] oth st by (cases "a = i") auto
      next
        fix a assume "a < length (calls ?c')" "pc (calls ?c' ! a) = Returned (Some ErrSelfPurging)"
        then show "purges (calls ?c' ! a) = 0"
          using purge_inv_hist(1,4) [OF inv] oth st Called i by (cases "a = i") auto
      qed
    qed
  next
    case Entered
    obtain r fs' where b: "Do_body P (args (calls c ! i)) (files c) = (r, fs')"
      by (cases "Do_body P (args (calls c ! i)) (files c)")
    have r: "r \<noteq> Some ErrSelfPurging" using b by (rule Do_body_not_self_purging)
    have st: "pc (calls ?c' ! i) = Leaving r" "flag ?c' = flag c"
      using i Entered b by (simp_all add: step_call_def Let_def)
    have same: "\<And>j. j < length (calls c) \<Longrightarrow>
                  in_purge (pc (calls ?c' ! j)) = in_purge (pc (calls c ! j))"
      using oth st Entered by (metis in_purge.simps(1,2))
    show ?thesis
    proof (rule purge_invI)
      fix a b
      assume "a < length (calls ?c')" "b < length (calls ?c')"
        "in_purge (pc (calls ?c' ! a))" "in_purge (pc (calls ?c' ! b))"
      then show "a = b" using same purge_inv_excl [OF inv] by simp
    next
      show "(\<exists>j < length (calls ?c'). in_purge (pc (calls ?c' ! j))) \<longleftrightarrow> flag ?c' \<noteq> 0"
        using same purge_inv_flag [OF inv] st by auto
    next
      fix a assume "a < length (calls ?c')" "pc (calls ?c' ! a) = Called"
      then show "purges (calls ?c' ! a) = 0"
        using purge_inv_hist(1) [OF inv] oth st by (cases "a = i") auto
    next
      fix a assume "a < length (calls ?c')" "pc (calls ?c' ! a) = Entered"
      then show "purges (calls ?c' ! a) = 0"
        using purge_inv_hist(2) [OF inv] oth st by (cases "a = i") auto
    next
      fix a assume "a < length (calls ?c')"
      then show "pc (calls ?c' ! a) \<noteq> Leaving (Some ErrSelfPurging)"
        using purge_inv_hist(3) [OF inv] oth st r by (cases "a = i") auto
    next
      fix a assume "a < length (calls ?c')" "pc (calls ?c' ! a) = Returned (Some ErrSelfPurging)"
      then show "purges (calls ?c' ! a) = 0"
        using purge_inv_hist(4) [OF inv] oth st by (cases "a = i") auto
    qed
  next
    case (Leaving r)
    have st: "pc (calls ?c' ! i) = Returned r" "purges (calls ?c' ! i) = purges (calls c ! i)"
             "flag ?c' = 0"
      using i Leaving by (simp_all add: step_call_def Let_def)
    have r: "r \<noteq> Some ErrSelfPurging" using purge_inv_hist(3) [OF inv i] Leaving by auto
    have "in_purge (pc (calls c ! i))" using Leaving by simp
    then have only: "\<And>j. j < length (calls c) \<Longrightarrow> in_purge (pc (calls c ! j)) \<Longrightarrow> j = i"
      using purge_inv_excl [OF inv _ i] by blast
    have none: "\<And>j. j < length (calls c) \<Longrightarrow> \<not> in_purge (pc (calls ?c' ! j))"
      using only oth st by (metis in_purge.simps(4))
    show ?thesis
    proof (rule purge_invI)
      fix a b
      assume "a < length (calls ?c')" "b < length (calls ?c')"
        "in_purge (pc (calls ?c' ! a))" "in_purge (pc (calls ?c' ! b))"
      then show "a = b" using none by simp
    next
      show "(\<exists>j < length (calls ?c'). in_purge (pc (calls ?c' ! j))) \<longleftrightarrow> flag ?c' \<noteq> 0"
        using none st by simp
    next
      fix a assume "a < length (calls ?c')" "pc (calls ?c' ! a) = Called"
      then show "purges (calls ?c' ! a) = 0"
        using purge_inv_hist(1) [OF inv] oth st by (cases "a = i") auto
    next
      fix a assume "a < length (calls ?c')" "pc (calls ?c' ! a) = Entered"
      then show "purges (calls ?c' ! a) = 0"
        using purge_inv_hist(2) [OF inv] oth st by (cases "a = i") auto
    next
      fix a assume "a < length (calls ?c')"
      then show "pc (calls ?c' ! a) \<noteq> Leaving (Some ErrSelfPurging)"
        using purge_inv_hist(3) [OF inv] oth st by (cases "a = i") auto
    next
      fix a assume "a < length (calls ?c')" "pc (calls ?c' ! a) = Returned (Some ErrSelfPurging)"
      then show "purges (calls ?c' ! a) = 0"
        using purge_inv_hist(4) [OF inv] oth st r by (cases "a = i") auto
    qed
  next
    case (Returned r)
    then have "step_call P i c = c" using i by (simp add: step_call_def Let_def)
    with inv show ?thesis by simp
  qed
qed

lemma run_calls_inv: "purge_inv c \<Longrightarrow> purge_inv (run_calls P sched c)"
  by (induction sched arbitrary: c) (simp_all add: step_call_inv)

text \<open>
  Claim C9: for any number of concurrent calls of \<open>Do\<close> (a pair in particular)
  started with the flag clear, and every schedule of their actions: at most one call is
  inside its purge at any moment; a call that finds the flag set returns
  \<open>ErrSelfPurging\<close> and leaves the files and the flag as they are, while another
  call is inside its purge and is not disturbed; and a call that returned
  \<open>ErrSelfPurging\<close> has run no purge body.
\<close>

theorem Do_single_flight:
  assumes "fresh_calls c0"
  shows "(\<forall>i j. i < length (calls (run_calls P sched c0)) \<and> j < length (calls (run_calls P sched c0))
            \<and> in_purge (pc (calls (run_calls P sched c0) ! i))
            \<and> in_purge (pc (calls (run_calls P sched c0) ! j)) \<longrightarrow> i = j)
       \<and> (\<forall>i. i < length (calls (run_calls P sched c0))
            \<and> pc (calls (run_calls P sched c0) ! i) = Called \<and> flag (run_calls P sched c0) \<noteq> 0 \<longrightarrow>
            pc (calls (step_call P i (run_calls P sched c0)) ! i) = Returned (Some ErrSelfPurging)
            \<and> files (step_call P i (run_calls P sched c0)) = files (run_calls P sched c0)
            \<and> flag (step_call P i (run_calls P sched c0)) = flag (run_calls P sched c0)
            \<and> (\<exists>j. j < length (calls (run_calls P sched c0)) \<and> j \<noteq> i
                  \<and> in_purge (pc (calls (run_calls P sched c0) ! j))
                  \<and> calls (step_call P i (run_calls P sched c0)) ! j = calls (run_calls P sched c0) ! j))
       \<and> (\<forall>i. i < length (calls (run_calls P sched c0))
            \<and> pc (calls (run_calls P sched c0) ! i) = Returned (Some ErrSelfPurging) \<longrightarrow>
            purges (calls (run_calls P sched c0) ! i) = 0)"
proof -
  let ?c = "run_calls P sched c0"
  have inv: "purge_inv ?c"
    using assms by (simp add: fresh_calls_inv run_calls_inv)
  have excl: "\<forall>i j. i < length (calls ?c) \<and> j < length (calls ?c)
            \<and> in_purge (pc (calls ?c ! i)) \<and> in_purge (pc (calls ?c ! j)) \<longrightarrow> i = j"
    using purge_inv_excl [OF inv] by blast
  have rejected: "pc (calls (step_call P i ?c) ! i) = Returned (Some ErrSelfPurging)
            \<and> files (step_call P i ?c) = files ?c
            \<and> flag (step_call P i ?c) = flag ?c
            \<and> (\<exists>j. j < length (calls ?c) \<and> j \<noteq> i \<and> in_purge (pc (calls ?c ! j))
                  \<and> calls (step_call P i ?c) ! j = calls ?c ! j)"
    if i: "i < length (calls ?c)" and called: "pc (calls ?c ! i) = Called" and f: "flag ?c \<noteq> 0" for i
  proof -
    have st: "pc (calls (step_call P i ?c) ! i) = Returned (Some ErrSelfPurging)"
         "files (step_call P i ?c) = files ?c" "flag (step_call P i ?c) = flag ?c"
      using i called f by (simp_all add: step_call_def Let_def CompareAndSwap_def)
    obtain j where j: "j < length (calls ?c)" "in_purge (pc (calls ?c ! j))"
      using purge_inv_flag [OF inv] f by blast
    have "j \<noteq> i" using j called by auto
    then show ?thesis using st j step_call_other [of j i P ?c] by blast
  qed
  have hist: "\<forall>i. i < length (calls ?c) \<and> pc (calls ?c ! i) = Returned (Some ErrSelfPurging) \<longrightarrow>
            purges (calls ?c ! i) = 0"
    using purge_inv_hist(4) [OF inv] by blast
  from excl rejected hist show ?thesis by blast
qed

theorem Do_single_flight_witness:
  "fresh_calls two_calls
   \<and> pc (calls (run_calls purge_older [0, 1] two_calls) ! 0) = Entered
   \<and> pc (calls (run_calls purge_older [0, 1] two_calls) ! 1) = Returned (Some ErrSelfPurging)
   \<and> purges (calls (run_calls purge_older [0, 1] two_calls) ! 1) = 0
   \<and> files (run_calls purge_older [0, 1] two_calls) = files two_calls"
proof -
  have fresh: "fresh_calls two_calls"
    by (simp add: fresh_calls_def two_calls_def)
  have run: "run_calls purge_older [0, 1] two_calls =
        two_calls\<lparr>flag := 1, calls :=
          [\<lparr>args = FilenameArgs purge_to_4, pc = Entered, purges = 0\<rparr>,
           \<lparr>args = FilenameArgs purge_to_4, pc = Returned (Some ErrSelfPurging), purges = 0\<rparr>]\<rparr>"
    by (simp add: two_calls_def step_call_def CompareAndSwap_def Let_def)
  have rejected: "\<And>i. i < length (calls (run_calls purge_older [0, 1] two_calls)) \<Longrightarrow>
      pc (calls (run_calls purge_older [0, 1] two_calls) ! i) = Returned (Some ErrSelfPurging) \<Longrightarrow>
      purges (calls (run_calls purge_older [0, 1] two_calls) ! i) = 0"
    using Do_single_flight [OF fresh, of purge_older "[0, 1]"] by blast
  have "purges (calls (run_calls purge_older [0, 1] two_calls) ! 1) = 0"
    by (rule rejected) (simp_all only: run, simp_all add: two_calls_def)
  then show ?thesis using fresh unfolding run by (simp add: two_calls_def)
qed

section \<open>Properties of the event pump\<close>

text \<open>
  Claim C5: when a rotate event is written (the transformer does not ignore it, the
  writer returns no error and does not ignore it), the meta position is the rotate
  target (name, pos = 4), the pending GTID buffer is empty, and \<open>Save\<close> and \<open>Flush\<close>
  have happened: \<open>Dirty\<close> is false and the meta file holds the position and the GTID
  set. The loop goes on from that state.
\<close>

theorem handleEvent_rotate:
  assumes "Event ev = RotateEvent next p"
      and "\<not> tIgnore (Transform ev)"
      and "WriteEvent (tEvent (Transform ev)) (writer r) = ((wres, None), w')"
      and "\<not> wIgnore wres"
  shows "\<exists>r'. handleEvent Transform WriteEvent (Inr ev) r = Continue r'
           \<and> pos (meta r') = \<lparr>Name = next, Pos = 4\<rparr>
           \<and> pendingGTIDs r' = []
           \<and> \<not> Dirty (meta r')
           \<and> flushedPos (meta r') = \<lparr>Name = next, Pos = 4\<rparr>
           \<and> flushedGTID (meta r') = gset (meta r')
           \<and> handleEvents Transform WriteEvent (Inr ev # rest) r =
               handleEvents Transform WriteEvent rest r'"
  using assms
  by (simp add: handleEvent_def update_meta_def publish_def Save_def Flush_def Dirty_def Let_def)

theorem handleEvent_rotate_witness:
  "Event rotateEv = RotateEvent ''mysql-bin.666888'' 4
   \<and> \<not> tIgnore (pass_through rotateEv)
   \<and> mockWriteEvent (tEvent (pass_through rotateEv)) (writer fresh_relay) =
        ((\<lparr>wIgnore = False\<rparr>, None), (writer fresh_relay)\<lparr>latestEvent := Some rotateEv\<rparr>)
   \<and> (\<exists>r'. handleEvent pass_through mockWriteEvent (Inr rotateEv) fresh_relay = Continue r'
          \<and> pos (meta r') = \<lparr>Name = ''mysql-bin.666888'', Pos = 4\<rparr>
          \<and> pendingGTIDs r' = []
          \<and> \<not> Dirty (meta r'))"
proof -
  have e: "Event rotateEv = RotateEvent ''mysql-bin.666888'' 4"
    by (simp add: rotateEv_def)
  have t: "\<not> tIgnore (pass_through rotateEv)"
    by (simp add: pass_through_def rotateEv_def)
  have w: "mockWriteEvent (tEvent (pass_through rotateEv)) (writer fresh_relay) =
        ((\<lparr>wIgnore = False\<rparr>, None), (writer fresh_relay)\<lparr>latestEvent := Some rotateEv\<rparr>)"
    by (simp add: mockWriteEvent_def pass_through_def fresh_relay_def)
  have i: "\<not> wIgnore \<lparr>wIgnore = False\<rparr>" by simp
  from handleEvent_rotate [of rotateEv "''mysql-bin.666888''" 4 pass_through mockWriteEvent
      fresh_relay "\<lparr>wIgnore = False\<rparr>" "(writer fresh_relay)\<lparr>latestEvent := Some rotateEv\<rparr>" "[]"]
    e t w i
  show ?thesis by blast
qed

text \<open>
  Claim C6: whatever error \<open>GetEvent\<close> returns, other than the cancellation of the
  context (a checksum mismatch, a closed sync, the need to sync again, any other error),
  \<open>handleEvents\<close> returns that same error, not wrapped, and leaves the relay as it is;
  when the context is cancelled it returns the result \<open>{Canceled: true}\<close> with no
  error, after flushing the meta.
\<close>

theorem handleEvents_reader_error:
  "(err \<noteq> ContextCanceled \<longrightarrow>
      handleEvents Transform WriteEvent (Inl err # rest) r =
        Some (\<lparr>Canceled = False\<rparr>, Some err, r))
   \<and> handleEvents Transform WriteEvent (Inl ContextCanceled # rest) r =
        Some (\<lparr>Canceled = True\<rparr>, None, r\<lparr>meta := Flush (meta r)\<rparr>)"
  by (simp add: handleEvent_def)

theorem handleEvents_reader_error_witness:
  "handleEvents pass_through mockWriteEvent [Inl (OtherError ''reader error for testing'')] fresh_relay
     = Some (\<lparr>Canceled = False\<rparr>, Some (OtherError ''reader error for testing''), fresh_relay)
   \<and> handleEvents pass_through mockWriteEvent [Inl ErrChecksumMismatch] fresh_relay
     = Some (\<lparr>Canceled = False\<rparr>, Some ErrChecksumMismatch, fresh_relay)
   \<and> handleEvents pass_through mockWriteEvent [Inl ErrSyncClosed] fresh_relay
     = Some (\<lparr>Canceled = False\<rparr>, Some ErrSyncClosed, fresh_relay)
   \<and> handleEvents pass_through mockWriteEvent [Inl ErrNeedSyncAgain] fresh_relay
     = Some (\<lparr>Canceled = False\<rparr>, Some ErrNeedSyncAgain, fresh_relay)
   \<and> handleEvents pass_through mockWriteEvent [Inl ContextCanceled] fresh_relay
     = Some (\<lparr>Canceled = True\<rparr>, None, fresh_relay\<lparr>meta := Flush (meta fresh_relay)\<rparr>)"
  using handleEvents_reader_error [of "OtherError ''reader error for testing''"
          pass_through mockWriteEvent "[]" fresh_relay]
        handleEvents_reader_error [of ErrChecksumMismatch pass_through mockWriteEvent "[]" fresh_relay]
        handleEvents_reader_error [of ErrSyncClosed pass_through mockWriteEvent "[]" fresh_relay]
        handleEvents_reader_error [of ErrNeedSyncAgain pass_through mockWriteEvent "[]" fresh_relay]
  by simp

text \<open>
  Claim C7: an event that the transformer marks \<open>Ignore\<close> is not written and leaves
  the whole relay, the meta with its position and GTID set included, as it is; an event
  that the writer's result marks \<open>Ignore\<close> skips the meta update, and nothing but the
  writer's own state changes. In both cases the loop goes on with the next event.
\<close>

theorem handleEvent_ignore:
  "(tIgnore (Transform ev) \<longrightarrow>
      handleEvent Transform WriteEvent (Inr ev) r = Continue r
      \<and> handleEvents Transform WriteEvent (Inr ev # rest) r =
          handleEvents Transform WriteEvent rest r)
   \<and> (\<not> tIgnore (Transform ev)
        \<and> WriteEvent (tEvent (Transform ev)) (writer r) = ((wres, None), w')
        \<and> wIgnore wres \<longrightarrow>
      (\<exists>r'. handleEvent Transform WriteEvent (Inr ev) r = Continue r'
          \<and> meta r' = meta r \<and> pendingGTIDs r' = pendingGTIDs r
          \<and> activeRelayLog r' = activeRelayLog r \<and> relayFiles r' = relayFiles r
          \<and> gtidPurged r' = gtidPurged r \<and> writer r' = w'
          \<and> handleEvents Transform WriteEvent (Inr ev # rest) r =
              handleEvents Transform WriteEvent rest r'))"
  by (simp add: handleEvent_def Let_def)

theorem handleEvent_ignore_witness:
  "tIgnore (pass_through heartbeatEv)
   \<and> handleEvent pass_through mockWriteEvent (Inr heartbeatEv) fresh_relay = Continue fresh_relay
   \<and> \<not> tIgnore (pass_through queryEv)
   \<and> mockWriteEvent (tEvent (pass_through queryEv)) (writer ignoring_relay) =
        ((\<lparr>wIgnore = True\<rparr>, None), (writer ignoring_relay)\<lparr>latestEvent := Some queryEv\<rparr>)
   \<and> (\<exists>r'. handleEvent pass_through mockWriteEvent (Inr queryEv) ignoring_relay = Continue r'
          \<and> meta r' = meta ignoring_relay
          \<and> writer r' = (writer ignoring_relay)\<lparr>latestEvent := Some queryEv\<rparr>)"
proof -
  have h: "tIgnore (pass_through heartbeatEv)"
    by (simp add: pass_through_def heartbeatEv_def)
  have q: "\<not> tIgnore (pass_through queryEv)"
    by (simp add: pass_through_def queryEv_def)
  have w: "mockWriteEvent (tEvent (pass_through queryEv)) (writer ignoring_relay) =
        ((\<lparr>wIgnore = True\<rparr>, None), (writer ignoring_relay)\<lparr>latestEvent := Some queryEv\<rparr>)"
    by (simp add: mockWriteEvent_def pass_through_def ignoring_relay_def)
  have i: "wIgnore \<lparr>wIgnore = True\<rparr>" by simp
  from handleEvent_ignore [of pass_through heartbeatEv mockWriteEvent fresh_relay "[]"] h
  have a: "handleEvent pass_through mockWriteEvent (Inr heartbeatEv) fresh_relay = Continue fresh_relay"
    by blast
  from handleEvent_ignore [of pass_through queryEv mockWriteEvent ignoring_relay "[]"
      "\<lparr>wIgnore = True\<rparr>" "(writer ignoring_relay)\<lparr>latestEvent := Some queryEv\<rparr>"] q w i
  have b: "\<exists>r'. handleEvent pass_through mockWriteEvent (Inr queryEv) ignoring_relay = Continue r'
          \<and> meta r' = meta ignoring_relay
          \<and> writer r' = (writer ignoring_relay)\<lparr>latestEvent := Some queryEv\<rparr>"
    by blast
  from h a q w b show ?thesis by blast
qed

text \<open>
  The run of \<open>TestHandleEvent\<close> with the rotate event: the event is written, the
  position is the rotate target, no GTID set is in the meta yet, and the meta is not
  dirty when the context ends the loop.
\<close>

lemma handleEvents_test_rotate:
  "handleEvents pass_through mockWriteEvent [Inr rotateEv, Inl ContextCanceled] fresh_relay
     = Some (\<lparr>Canceled = True\<rparr>, None,
         fresh_relay\<lparr>meta := (meta fresh_relay)
              \<lparr>pos := \<lparr>Name = ''mysql-bin.666888'', Pos = 4\<rparr>,
               flushedPos := \<lparr>Name = ''mysql-bin.666888'', Pos = 4\<rparr>\<rparr>,
           activeRelayLog := Some (''24ecd093-8cec-11e9-aa0d-0242ac170002.000001'',
              ''mysql-bin.666888'', 123),
           writer := (writer fresh_relay)\<lparr>latestEvent := Some rotateEv\<rparr>\<rparr>)"
  by (simp add: handleEvent_def update_meta_def publish_def Save_def Flush_def Let_def
      pass_through_def mockWriteEvent_def rotateEv_def fresh_relay_def minCheckpoint_def)

section \<open>Properties of the relay holder\<close>

lemma Close_idem: "Close (Close h) = Close h"
  by (simp add: Close_def cancel_pump_def)

text \<open>
  Claim C8: after \<open>Close\<close> on a holder that is not in the terminal stage, the
  internal stage is \<open>Paused\<close> (not \<open>Stopped\<close>) and \<open>closed\<close> is true; a second
  \<open>Close\<close> changes nothing; \<open>Status\<close> reports the stage \<open>Stopped\<close> and
  \<open>Error\<close> returns the message "relay stopped", although the internal stage is
  \<open>Paused\<close>.
\<close>

theorem Close_observable:
  assumes "stage h \<noteq> Stopped"
  shows "stage (Close h) = Paused \<and> stage (Close h) \<noteq> Stopped \<and> closed (Close h)
         \<and> Close (Close h) = Close h
         \<and> Stage (Status (Close h)) = Stopped
         \<and> Error (Close h) = Some \<lparr>Msg = ''relay stopped''\<rparr>"
  using assms by (simp add: Close_def cancel_pump_def Status_def Error_def)

theorem Close_observable_witness:
  "stage running_holder = Running
   \<and> stage (Close running_holder) = Paused
   \<and> closed (Close running_holder)
   \<and> result (Close running_holder) = Some test_result
   \<and> Close (Close running_holder) = Close running_holder
   \<and> Status (Close running_holder) = \<lparr>Stage = Stopped, Result = None\<rparr>
   \<and> Error (Close running_holder) = Some \<lparr>Msg = ''relay stopped''\<rparr>"
proof -
  have r: "stage running_holder \<noteq> Stopped"
    by (simp add: running_holder_def Start_def NewRealRelayHolder_def)
  have "result (Close running_holder) = Some test_result"
    by (simp add: running_holder_def Start_def NewRealRelayHolder_def Close_def
        cancel_pump_def InjectProcessResult_def)
  moreover have "stage running_holder = Running"
    by (simp add: running_holder_def Start_def NewRealRelayHolder_def)
  ultimately show ?thesis
    using Close_observable [OF r] by (simp add: Status_def)
qed

end
